theory Spec2Isabelle
  imports Complex_Main "HOL-Library.Sublist" "HOL-Library.Multiset"
begin

section \<open>The fuzzy search of gui.py\<close>

text \<open>
  The module \<^verbatim>\<open>gui.py\<close> ranks the rows of the table \<^verbatim>\<open>ableton_live_sets\<close> against a
  query: \<^verbatim>\<open>get_best_match_score\<close> scores one row, \<^verbatim>\<open>perform_fuzzy_search\<close> scores,
  sorts and truncates, and \<^verbatim>\<open>SearchApp.perform_search\<close> fills the result table.

  What the module reads from its surroundings is passed explicitly:
  \<^item> \<open>columns_info\<close>, the module-level result of \<^verbatim>\<open>PRAGMA table_info\<close>;
  \<^item> \<open>all_rows\<close>, what \<^verbatim>\<open>SELECT * FROM ableton_live_sets\<close> fetches (a failure of the
    database driver itself is not modelled);
  \<^item> \<open>str\<close>, Python's builtin \<^verbatim>\<open>str\<close> on the non-null values the driver returns
    (\<^verbatim>\<open>int\<close>, \<^verbatim>\<open>float\<close>, \<^verbatim>\<open>str\<close>, \<^verbatim>\<open>bytes\<close>); the type \<open>'v\<close> of these values is
    left open, so every statement holds for whatever \<^verbatim>\<open>str\<close> prints;
  \<^item> \<open>unicode_lower\<close>, what \<^verbatim>\<open>str.lower\<close> returns on a string that holds a character
    beyond ASCII (the Unicode case tables); it is left open as well.
  A row is a list of \<open>'v option\<close>, \<open>None\<close> being Python's \<^verbatim>\<open>None\<close> (SQL NULL).
  A Python string is the list of the code points of its characters. Column names are
  only compared with one another and with the six excluded names; they are kept as
  Isabelle strings.
\<close>

subsection \<open>Data\<close>

text \<open>A row of \<^verbatim>\<open>PRAGMA table_info\<close>: (cid, name, type, notnull, dflt_value, pk).\<close>

type_synonym column_info = "int \<times> string \<times> string \<times> int \<times> string option \<times> int"

text \<open>\<^verbatim>\<open>column_info[1]\<close>\<close>

definition column_name_of :: "column_info \<Rightarrow> string" where
  "column_name_of column_info = fst (snd column_info)"

text \<open>A column as \<^verbatim>\<open>PRAGMA table_info\<close> lists it, for writing schemas down.\<close>

definition text_column :: "int \<Rightarrow> string \<Rightarrow> column_info" where
  "text_column cid name = (cid, name, ''TEXT'', 0, None, 0)"

datatype py_error = IndexError | ValueError

subsection \<open>Strings\<close>

type_synonym py_string = "nat list"

text \<open>A string written with Isabelle's characters, as a Python string.\<close>

definition code_points :: "string \<Rightarrow> py_string" where
  "code_points s = map of_char s"

text \<open>The ASCII letters A to Z (codes 65 to 90) move to a to z.\<close>

definition ascii_lower_char :: "nat \<Rightarrow> nat" where
  "ascii_lower_char c = (if 65 \<le> c \<and> c \<le> 90 then c + 32 else c)"

text \<open>
  \<^verbatim>\<open>str.lower\<close>. On a string of ASCII characters only (codes below 128) it moves the
  letters A to Z to a to z and keeps every other character; on a string that holds any
  other character it is what the Unicode case tables make of the string, and that is
  \<open>unicode_lower\<close>.
\<close>

definition lower :: "(py_string \<Rightarrow> py_string) \<Rightarrow> py_string \<Rightarrow> py_string" where
  "lower unicode_lower s =
     (if list_all (\<lambda>c. c < 128) s then map ascii_lower_char s else unicode_lower s)"

text \<open>
  The length of a longest common subsequence of two strings: the number of matching
  characters of a best alignment.
\<close>

fun lcs_length :: "'a list \<Rightarrow> 'a list \<Rightarrow> nat" where
  "lcs_length [] ys = 0"
| "lcs_length (x # xs) [] = 0"
| "lcs_length (x # xs) (y # ys) =
     (if x = y then Suc (lcs_length xs ys)
      else max (lcs_length xs (y # ys)) (lcs_length (x # xs) ys))"

text \<open>
  Modelled from the spec: \<^verbatim>\<open>fuzz.ratio\<close> of the library fuzzywuzzy, which gui.py imports
  and which is not part of the repository's sources. The spec gives
  "score = 100 \<times> (2*M)/T where M is the number of matching characters found by a
  longest-common-subsequence-like alignment and T is the total length of both strings",
  which is also "100 \<times> (1 - normalized_edit_distance)". The quotient is taken as it is
  written, an exact rational number; the spec's words name no rounding. For two empty
  strings T is 0 and the quotient has no value; the edit distance of two equal strings is
  0, so the second form gives 100 there.
\<close>

definition ratio :: "py_string \<Rightarrow> py_string \<Rightarrow> rat" where
  "ratio s1 s2 =
     (let M = lcs_length s1 s2; T = length s1 + length s2
      in if T = 0 then 100 else 100 * (2 * of_nat M) / of_nat T)"

subsection \<open>get_best_match_score\<close>

text \<open>
  The score of one non-null value, line 62:
  \<^verbatim>\<open>fuzz.ratio(str(row[index]).lower(), query.lower())\<close>.
\<close>

definition field_score ::
  "('v \<Rightarrow> py_string) \<Rightarrow> (py_string \<Rightarrow> py_string) \<Rightarrow> 'v \<Rightarrow> py_string \<Rightarrow> rat" where
  "field_score str unicode_lower v query =
     ratio (lower unicode_lower (str v)) (lower unicode_lower query)"

text \<open>
  The loop \<^verbatim>\<open>for index, column_info in enumerate(columns_info)\<close>, from \<open>index\<close> on, with
  the running \<open>best_score\<close>. \<^verbatim>\<open>row[index]\<close> is read only for a column that is not
  excluded (\<^verbatim>\<open>and\<close> is short-circuit) and raises IndexError beyond the row's end.
\<close>

fun best_score_loop ::
  "('v \<Rightarrow> py_string) \<Rightarrow> (py_string \<Rightarrow> py_string) \<Rightarrow> 'v option list \<Rightarrow> py_string \<Rightarrow>
   string list \<Rightarrow> nat \<Rightarrow> column_info list \<Rightarrow> rat \<Rightarrow> py_error + rat" where
  "best_score_loop str unicode_lower row query exclude_columns index [] best_score =
     Inr best_score"
| "best_score_loop str unicode_lower row query exclude_columns index (column_info # rest)
     best_score =
     (let column_name = column_name_of column_info in
      if column_name \<notin> set exclude_columns then
        (if index < length row then
           (case row ! index of
              None \<Rightarrow>
                best_score_loop str unicode_lower row query exclude_columns (Suc index) rest
                  best_score
            | Some v \<Rightarrow>
                (let score = field_score str unicode_lower v query in
                 best_score_loop str unicode_lower row query exclude_columns (Suc index) rest
                   (max best_score score)))
         else Inl IndexError)
      else
        best_score_loop str unicode_lower row query exclude_columns (Suc index) rest
          best_score)"

definition get_best_match_score ::
  "('v \<Rightarrow> py_string) \<Rightarrow> (py_string \<Rightarrow> py_string) \<Rightarrow> column_info list \<Rightarrow>
   'v option list \<Rightarrow> py_string \<Rightarrow> string list \<Rightarrow> py_error + rat" where
  "get_best_match_score str unicode_lower columns_info row query exclude_columns =
     best_score_loop str unicode_lower row query exclude_columns 0 columns_info 0"

subsection \<open>perform_fuzzy_search\<close>

definition excluded_columns :: "string list" where
  "excluded_columns =
     [''uuid'', ''identifier'', ''xml_root'', ''path'', ''file_hash'', ''last_scan_timestamp'']"

text \<open>
  The list comprehension \<^verbatim>\<open>[(row, get_best_match_score(...)) for row in all_rows]\<close>: rows
  are scored from left to right and the first exception ends the comprehension.
\<close>

fun score_rows ::
  "('v \<Rightarrow> py_string) \<Rightarrow> (py_string \<Rightarrow> py_string) \<Rightarrow> column_info list \<Rightarrow>
   py_string \<Rightarrow> string list \<Rightarrow> 'v option list list \<Rightarrow>
   py_error + ('v option list \<times> rat) list" where
  "score_rows str unicode_lower columns_info query exclude_columns [] = Inr []"
| "score_rows str unicode_lower columns_info query exclude_columns (row # rows) =
     (case get_best_match_score str unicode_lower columns_info row query exclude_columns of
        Inl e \<Rightarrow> Inl e
      | Inr score \<Rightarrow>
          (case score_rows str unicode_lower columns_info query exclude_columns rows of
             Inl e \<Rightarrow> Inl e
           | Inr scored \<Rightarrow> Inr ((row, score) # scored)))"

text \<open>
  Python's \<^verbatim>\<open>sorted(xs, key=key, reverse=reverse)\<close>: a stable sort by the key; with
  \<^verbatim>\<open>reverse\<close> the list is reversed, sorted and reversed again, as CPython's
  \<^verbatim>\<open>list.sort\<close> does.
\<close>

definition sorted_py :: "('a \<Rightarrow> 'k::linorder) \<Rightarrow> bool \<Rightarrow> 'a list \<Rightarrow> 'a list" where
  "sorted_py key reverse xs =
     (if reverse then rev (sort_key key (rev xs)) else sort_key key xs)"

definition perform_fuzzy_search ::
  "('v \<Rightarrow> py_string) \<Rightarrow> (py_string \<Rightarrow> py_string) \<Rightarrow> column_info list \<Rightarrow>
   'v option list list \<Rightarrow> py_string \<Rightarrow> py_error + ('v option list \<times> rat) list" where
  "perform_fuzzy_search str unicode_lower columns_info all_rows query =
     (let exclude_columns = excluded_columns in
      case score_rows str unicode_lower columns_info query exclude_columns all_rows of
        Inl e \<Rightarrow> Inl e
      | Inr match_scores \<Rightarrow>
          (let sorted_matches = sorted_py snd True match_scores;
               top_matches = take 10 sorted_matches
           in Inr top_matches))"

subsection \<open>SearchApp.perform_search\<close>

text \<open>
  What the handler does to the result table is the list of the calls it makes on it,
  in order. (An exception ends the handler; the calls made before it are not kept.)
\<close>

datatype gui_call = SetRowCount nat | SetItem nat nat py_string

text \<open>
  \<^verbatim>\<open>self.headers\<close>, built in \<^verbatim>\<open>__init__\<close>: the names of the columns that are not
  excluded. (The source writes the list of excluded names out again at each use; it is
  the same list as in \<^verbatim>\<open>perform_fuzzy_search\<close>.)
\<close>

definition headers_of :: "column_info list \<Rightarrow> string list" where
  "headers_of columns_info =
     map column_name_of
       (filter (\<lambda>info. column_name_of info \<notin> set excluded_columns) columns_info)"

text \<open>\<^verbatim>\<open>list.index\<close>: the first position of \<open>x\<close>; ValueError when there is none.\<close>

fun index_py :: "'a list \<Rightarrow> 'a \<Rightarrow> py_error + nat" where
  "index_py [] x = Inl ValueError"
| "index_py (y # ys) x =
     (if y = x then Inr 0
      else (case index_py ys x of Inl e \<Rightarrow> Inl e | Inr n \<Rightarrow> Inr (Suc n)))"

text \<open>\<^verbatim>\<open>str(value)\<close> of a cell: \<^verbatim>\<open>None\<close> prints as the word None.\<close>

definition str_cell :: "('v \<Rightarrow> py_string) \<Rightarrow> 'v option \<Rightarrow> py_string" where
  "str_cell str value = (case value of None \<Rightarrow> code_points ''None'' | Some v \<Rightarrow> str v)"

text \<open>
  The inner loop \<^verbatim>\<open>for col_index, value in enumerate(match_row)\<close>, from \<open>col_index\<close>
  on. \<^verbatim>\<open>columns_info[col_index]\<close> raises IndexError beyond the schema's end.
\<close>

fun render_cells ::
  "('v \<Rightarrow> py_string) \<Rightarrow> column_info list \<Rightarrow> string list \<Rightarrow> nat \<Rightarrow> nat \<Rightarrow> 'v option list \<Rightarrow>
   py_error + gui_call list" where
  "render_cells str columns_info headers row col_index [] = Inr []"
| "render_cells str columns_info headers row col_index (value # rest) =
     (if col_index < length columns_info then
        (let column_name = column_name_of (columns_info ! col_index) in
         if column_name \<notin> set excluded_columns then
           (case index_py headers column_name of
              Inl e \<Rightarrow> Inl e
            | Inr column \<Rightarrow>
                (case render_cells str columns_info headers row (Suc col_index) rest of
                   Inl e \<Rightarrow> Inl e
                 | Inr calls \<Rightarrow> Inr (SetItem row column (str_cell str value) # calls)))
         else render_cells str columns_info headers row (Suc col_index) rest)
      else Inl IndexError)"

text \<open>The outer loop \<^verbatim>\<open>for row, (match_row, score) in enumerate(matches)\<close>.\<close>

fun render_matches ::
  "('v \<Rightarrow> py_string) \<Rightarrow> column_info list \<Rightarrow> string list \<Rightarrow> nat \<Rightarrow>
   ('v option list \<times> rat) list \<Rightarrow> py_error + gui_call list" where
  "render_matches str columns_info headers row [] = Inr []"
| "render_matches str columns_info headers row ((match_row, score) # rest) =
     (case render_cells str columns_info headers row 0 match_row of
        Inl e \<Rightarrow> Inl e
      | Inr calls \<Rightarrow>
          (case render_matches str columns_info headers (Suc row) rest of
             Inl e \<Rightarrow> Inl e
           | Inr more \<Rightarrow> Inr (calls @ more)))"

text \<open>
  The handler, with \<open>query\<close> the text of the search line. \<^verbatim>\<open>if not query\<close> holds for
  the empty string only.
\<close>

definition perform_search ::
  "('v \<Rightarrow> py_string) \<Rightarrow> (py_string \<Rightarrow> py_string) \<Rightarrow> column_info list \<Rightarrow>
   'v option list list \<Rightarrow> py_string \<Rightarrow> py_error + gui_call list" where
  "perform_search str unicode_lower columns_info all_rows query =
     (if query = [] then Inr [SetRowCount 0]
      else
        (case perform_fuzzy_search str unicode_lower columns_info all_rows query of
           Inl e \<Rightarrow> Inl e
         | Inr matches \<Rightarrow>
             (case render_matches str columns_info (headers_of columns_info) 0 matches of
                Inl e \<Rightarrow> Inl e
              | Inr calls \<Rightarrow> Inr (SetRowCount (length matches) # calls))))"

subsection \<open>A small table\<close>

text \<open>
  \<^verbatim>\<open>str\<close> on a value that is a Python string, the value written with Isabelle's
  characters: the string itself.
\<close>

definition str_text :: "string \<Rightarrow> py_string" where
  "str_text s = code_points s"

text \<open>
  The examples hold ASCII text only, where \<^verbatim>\<open>str.lower\<close> needs no Unicode table; this
  stands in for the table and is never consulted.
\<close>

definition no_table :: "py_string \<Rightarrow> py_string" where
  "no_table s = s"

text \<open>
  A schema of one excluded and two visible columns, a query, and four rows of text
  values.
\<close>

definition example_columns :: "column_info list" where
  "example_columns = [text_column 0 ''uuid'', text_column 1 ''name'', text_column 2 ''key'']"

definition example_query :: py_string where
  "example_query = code_points ''dusk''"

definition example_rows :: "string option list list" where
  "example_rows =
     [[Some ''u1'', Some ''Dawn'', None],
      [Some ''u2'', Some ''Dusk'', Some ''C''],
      [Some ''u3'', None, None],
      [Some ''u4'', Some ''DUSK'', Some ''D'']]"


subsection \<open>The spec's words, for comparison with the code\<close>

text \<open>
  The positions the spec scores: those whose field name is not in the excluded set and
  whose value is not null; and the per-field scores at these positions.
\<close>

definition scored_positions :: "column_info list \<Rightarrow> 'v option list \<Rightarrow> string list \<Rightarrow> nat list" where
  "scored_positions columns_info row exclude_columns =
     filter (\<lambda>i. column_name_of (columns_info ! i) \<notin> set exclude_columns \<and> row ! i \<noteq> None)
       [0..<length columns_info]"

definition field_scores ::
  "('v \<Rightarrow> py_string) \<Rightarrow> (py_string \<Rightarrow> py_string) \<Rightarrow> column_info list \<Rightarrow>
   'v option list \<Rightarrow> py_string \<Rightarrow> string list \<Rightarrow> rat list" where
  "field_scores str unicode_lower columns_info row query exclude_columns =
     map (\<lambda>i. field_score str unicode_lower (the (row ! i)) query)
       (scored_positions columns_info row exclude_columns)"

text \<open>The first position of \<open>x\<close> in \<open>xs\<close> (the length of \<open>xs\<close> when there is none).\<close>

definition first_index :: "'a list \<Rightarrow> 'a \<Rightarrow> nat" where
  "first_index xs x = length (takeWhile (\<lambda>y. y \<noteq> x) xs)"

text \<open>
  The cells of one table row as the output surface shows a record: one cell per column
  that is not excluded, in schema order, placed under that column's header.
\<close>

definition visible_cells ::
  "('v \<Rightarrow> py_string) \<Rightarrow> column_info list \<Rightarrow> nat \<Rightarrow> 'v option list \<Rightarrow> gui_call list" where
  "visible_cells str columns_info row match_row =
     map (\<lambda>k. SetItem row
                (first_index (headers_of columns_info) (column_name_of (columns_info ! k)))
                (str_cell str (match_row ! k)))
       (filter (\<lambda>k. column_name_of (columns_info ! k) \<notin> set excluded_columns)
          [0..<length columns_info])"

section \<open>Properties\<close>

subsection \<open>Longest common subsequences and the ratio\<close>

lemma lcs_length_le_left: "lcs_length xs ys \<le> length xs"
  by (induction xs ys rule: lcs_length.induct) auto

lemma lcs_length_le_right: "lcs_length xs ys \<le> length ys"
  by (induction xs ys rule: lcs_length.induct) auto


lemma lcs_length_attained:
  "\<exists>zs. subseq zs xs \<and> subseq zs ys \<and> length zs = lcs_length xs ys"
proof (induction xs ys rule: lcs_length.induct)
  case (1 ys)
  then show ?case by simp
next
  case (2 x xs)
  then show ?case by simp
next
  case (3 x xs y ys)
  show ?case
  proof (cases "x = y")
    case True
    with 3 obtain zs where "subseq zs xs" "subseq zs ys" "length zs = lcs_length xs ys"
      by auto
    then have "subseq (x # zs) (x # xs) \<and> subseq (x # zs) (y # ys)
               \<and> length (x # zs) = lcs_length (x # xs) (y # ys)"
      using True by simp
    then show ?thesis by blast
  next
    case False
    from 3 False obtain zs1 where z1: "subseq zs1 xs" "subseq zs1 (y # ys)"
        "length zs1 = lcs_length xs (y # ys)"
      by auto
    from 3 False obtain zs2 where z2: "subseq zs2 (x # xs)" "subseq zs2 ys"
        "length zs2 = lcs_length (x # xs) ys"
      by auto
    show ?thesis
    proof (cases "lcs_length xs (y # ys) \<le> lcs_length (x # xs) ys")
      case True
      with z2 False have "subseq zs2 (x # xs) \<and> subseq zs2 (y # ys)
          \<and> length zs2 = lcs_length (x # xs) (y # ys)"
        by (auto simp: max_def)
      then show ?thesis by blast
    next
      case le: False
      with z1 False have "subseq zs1 (x # xs) \<and> subseq zs1 (y # ys)
          \<and> length zs1 = lcs_length (x # xs) (y # ys)"
        by (auto simp: max_def)
      then show ?thesis by blast
    qed
  qed
qed

lemma lcs_length_longest:
  "subseq zs xs \<Longrightarrow> subseq zs ys \<Longrightarrow> length zs \<le> lcs_length xs ys"
proof (induction xs ys arbitrary: zs rule: lcs_length.induct)
  case (1 ys)
  then show ?case by simp
next
  case (2 x xs)
  then show ?case by simp
next
  case (3 x xs y ys)
  show ?case
  proof (cases zs)
    case Nil
    then show ?thesis by simp
  next
    case (Cons z zs')
    show ?thesis
    proof (cases "x = y")
      case True
      have "subseq zs' xs"
        using "3.prems"(1) Cons by (auto split: if_splits dest: subseq_Cons')
      moreover have "subseq zs' ys"
        using "3.prems"(2) Cons by (auto split: if_splits dest: subseq_Cons')
      ultimately have "length zs' \<le> lcs_length xs ys"
        using "3.IH"(1) True by blast
      then show ?thesis
        using True Cons by simp
    next
      case False
      show ?thesis
      proof (cases "z = x")
        case zx: True
        then have "subseq zs (x # xs)" "subseq zs ys"
          using "3.prems" Cons False by (auto split: if_splits)
        then have "length zs \<le> lcs_length (x # xs) ys"
          using "3.IH"(3) False by blast
        then show ?thesis
          using False by simp
      next
        case zx: False
        then have "subseq zs xs" "subseq zs (y # ys)"
          using "3.prems" Cons by (auto split: if_splits)
        then have "length zs \<le> lcs_length xs (y # ys)"
          using "3.IH"(2) False by blast
        then show ?thesis
          using False by simp
      qed
    qed
  qed
qed

lemma ratio_nonneg: "0 \<le> ratio s1 s2"
  by (simp add: ratio_def Let_def)

lemma ratio_le_100: "ratio s1 s2 \<le> 100"
proof -
  have "2 * lcs_length s1 s2 \<le> length s1 + length s2"
    using lcs_length_le_left [of s1 s2] lcs_length_le_right [of s1 s2] by linarith
  then have "(of_nat (2 * lcs_length s1 s2) :: rat) \<le> of_nat (length s1 + length s2)"
    by (simp only: of_nat_le_iff)
  then show ?thesis
    by (simp add: ratio_def Let_def divide_le_eq)
qed


lemma field_score_bounds: "0 \<le> field_score str unicode_lower v query \<and> field_score str
    unicode_lower v query \<le> 100"
  by (simp add: field_score_def ratio_nonneg ratio_le_100)

subsection \<open>Sorting, and the search as a whole\<close>

lemma mset_sorted_py: "mset (sorted_py key reverse xs) = mset xs"
  by (simp add: sorted_py_def)

lemma length_sorted_py: "length (sorted_py key reverse xs) = length xs"
  by (simp add: sorted_py_def)

lemma set_sorted_py: "set (sorted_py key reverse xs) = set xs"
  by (simp add: sorted_py_def)

lemma sorted_py_descending:
  "sorted_wrt (\<lambda>a b. key b \<le> key a) (sorted_py key True xs)"
proof -
  have "sorted (map key (sort_key key (rev xs)))"
    by (rule sorted_sort_key)
  then have "sorted_wrt (\<lambda>a b. key a \<le> key b) (sort_key key (rev xs))"
    by (simp add: sorted_map)
  then show ?thesis
    by (simp add: sorted_py_def sorted_wrt_rev)
qed

lemma sorted_py_stable:
  "filter (\<lambda>y. key y = k) (sorted_py key True xs) = filter (\<lambda>y. key y = k) xs"
proof -
  have "filter (\<lambda>y. key y = k) (rev (sort_key key (rev xs)))
        = rev (filter (\<lambda>y. key y = k) (sort_key key (rev xs)))"
    by (simp add: rev_filter)
  also have "\<dots> = rev (filter (\<lambda>y. key y = k) (rev xs))"
    by (simp only: sort_key_stable)
  also have "\<dots> = filter (\<lambda>y. key y = k) xs"
    by (simp add: rev_filter)
  finally show ?thesis
    by (simp add: sorted_py_def)
qed

lemma best_score_loop_total:
  "index + length cols \<le> length row \<Longrightarrow>
   \<exists>s. best_score_loop str unicode_lower row query ex index cols best = Inr s"
proof (induction cols arbitrary: index best)
  case Nil
  then show ?case by simp
next
  case (Cons c cols)
  then have lt: "index < length row" and rest: "Suc index + length cols \<le> length row"
    by simp_all
  show ?case
    using lt Cons.IH [OF rest] by (simp add: Let_def split: option.split)
qed

lemma get_best_match_score_total:
  "length columns_info \<le> length row \<Longrightarrow>
   \<exists>s. get_best_match_score str unicode_lower columns_info row query ex = Inr s"
  unfolding get_best_match_score_def by (rule best_score_loop_total) simp

lemma score_rows_Inr:
  "score_rows str unicode_lower columns_info query ex rows = Inr scored \<Longrightarrow>
   map fst scored = rows \<and>
   (\<forall>p \<in> set scored. get_best_match_score str unicode_lower columns_info (fst p) query ex = Inr
       (snd p))"
proof (induction rows arbitrary: scored)
  case Nil
  then show ?case by simp
next
  case (Cons row rows)
  then show ?case
    by (auto split: sum.splits)
qed

lemma score_rows_total:
  "\<forall>row \<in> set rows. length columns_info \<le> length row \<Longrightarrow>
   \<exists>scored. score_rows str unicode_lower columns_info query ex rows = Inr scored"
proof (induction rows)
  case Nil
  then show ?case by simp
next
  case (Cons row rows)
  then obtain scored where s: "score_rows str unicode_lower columns_info query ex rows = Inr scored"
    by auto
  from Cons.prems obtain sc where "get_best_match_score str unicode_lower columns_info row query
      ex = Inr sc"
    using get_best_match_score_total [of columns_info row str unicode_lower query ex] by auto
  with s show ?case by simp
qed

lemma perform_fuzzy_search_Inr:
  "perform_fuzzy_search str unicode_lower columns_info all_rows query = Inr top_matches \<longleftrightarrow>
   (\<exists>match_scores. score_rows str unicode_lower columns_info query excluded_columns all_rows = Inr
       match_scores
      \<and> top_matches = take 10 (sorted_py snd True match_scores))"
  by (auto simp: perform_fuzzy_search_def Let_def split: sum.splits)

lemma perform_fuzzy_search_total:
  "\<forall>row \<in> set all_rows. length columns_info \<le> length row \<Longrightarrow>
   \<exists>top_matches. perform_fuzzy_search str unicode_lower columns_info all_rows query = Inr
       top_matches"
  using score_rows_total [of all_rows columns_info str unicode_lower query excluded_columns]
  by (auto simp: perform_fuzzy_search_Inr)


lemma scored_rows_filter:
  assumes "score_rows str unicode_lower columns_info query ex rows = Inr scored"
  shows "map fst (filter (\<lambda>p. snd p = k) scored)
         = filter (\<lambda>row. get_best_match_score str unicode_lower columns_info row query ex = Inr k)
             rows"
proof -
  from score_rows_Inr [OF assms]
  have rows: "map fst scored = rows"
    and sc: "\<forall>p \<in> set scored. get_best_match_score str unicode_lower columns_info (fst p) query ex
        = Inr (snd p)"
    by simp_all
  have "filter (\<lambda>p. snd p = k) scored
        = filter ((\<lambda>row. get_best_match_score str unicode_lower columns_info row query ex = Inr k)
            \<circ> fst) scored"
    using sc by (intro filter_cong) auto
  then show ?thesis
    unfolding rows [symmetric] by (simp add: filter_map)
qed

lemma example_search:
  "perform_fuzzy_search str_text no_table example_columns example_rows example_query =
     Inr [([Some ''u2'', Some ''Dusk'', Some ''C''], 100),
          ([Some ''u4'', Some ''DUSK'', Some ''D''], 100),
          ([Some ''u1'', Some ''Dawn'', None], 25),
          ([Some ''u3'', None, None], 0)]"
  by code_simp

lemma example_rows_fit: "\<forall>row \<in> set example_rows. length example_columns \<le> length row"
  by (simp add: example_rows_def example_columns_def)

subsection \<open>The scoring loop\<close>



lemma best_score_loop_excluded_update:
  assumes "\<And>j. j < length cols \<Longrightarrow> index + j = i \<Longrightarrow> column_name_of (cols ! j) \<in> set ex"
  shows "best_score_loop str unicode_lower (row[i := v]) query ex index cols best
         = best_score_loop str unicode_lower row query ex index cols best"
  using assms
proof (induction cols arbitrary: index best)
  case Nil
  then show ?case by simp
next
  case (Cons c cols)
  have rest: "\<And>j. j < length cols \<Longrightarrow> Suc index + j = i \<Longrightarrow> column_name_of (cols ! j) \<in> set ex"
    using Cons.prems [of "Suc j" for j] by simp
  have step: "\<And>b. best_score_loop str unicode_lower (row[i := v]) query ex (Suc index) cols b
             = best_score_loop str unicode_lower row query ex (Suc index) cols b"
    using rest by (rule Cons.IH)
  show ?case
  proof (cases "column_name_of c \<in> set ex")
    case True
    then show ?thesis by (simp add: step)
  next
    case False
    then have "index \<noteq> i"
      using Cons.prems [of 0] by auto
    then have "row[i := v] ! index = row ! index"
      by simp
    then show ?thesis
      using False by (simp add: step Let_def split: option.split)
  qed
qed

lemma best_score_loop_bounds:
  "best_score_loop str unicode_lower row query ex index cols best = Inr s \<Longrightarrow>
   0 \<le> best \<Longrightarrow> best \<le> 100 \<Longrightarrow> 0 \<le> s \<and> s \<le> 100"
proof (induction cols arbitrary: index best)
  case Nil
  then show ?case by simp
next
  case (Cons c cols)
  show ?case
  proof (cases "column_name_of c \<notin> set ex \<and> index < length row \<and> row ! index \<noteq> None")
    case True
    then obtain v where v: "row ! index = Some v" by auto
    let ?b = "max best (field_score str unicode_lower v query)"
    have "best_score_loop str unicode_lower row query ex (Suc index) cols ?b = Inr s"
      using Cons.prems(1) True v by (simp add: Let_def)
    moreover have "0 \<le> ?b" "?b \<le> 100"
      using Cons.prems(2,3) field_score_bounds [of str unicode_lower v query] by simp_all
    ultimately show ?thesis by (rule Cons.IH)
  next
    case False
    then have "best_score_loop str unicode_lower row query ex (Suc index) cols best = Inr s"
      using Cons.prems(1) by (auto simp: Let_def split: if_splits option.splits)
    then show ?thesis using Cons.prems(2,3) by (rule Cons.IH)
  qed
qed

lemma best_score_loop_error:
  "best_score_loop str unicode_lower row query ex index cols best = Inl e \<Longrightarrow>
   e = IndexError \<and> length row < index + length cols"
proof (induction cols arbitrary: index best)
  case Nil
  then show ?case by simp
next
  case (Cons c cols)
  show ?case
  proof (cases "column_name_of c \<notin> set ex \<and> \<not> index < length row")
    case True
    then show ?thesis using Cons.prems by simp
  next
    case False
    then obtain b where "best_score_loop str unicode_lower row query ex (Suc index) cols b = Inl e"
      using Cons.prems by (auto simp: Let_def split: if_splits option.splits)
    from Cons.IH [OF this] show ?thesis by simp
  qed
qed

lemma upt_0_Suc_shift: "[0..<Suc n] = 0 # map Suc [0..<n]"
  by (simp add: upt_conv_Cons map_Suc_upt del: upt_Suc)

text \<open>The scores the loop meets from \<open>index\<close> on, in the order it meets them.\<close>

lemma loop_scores_Cons:
  "map (\<lambda>j. field_score str unicode_lower (the (row ! (index + j))) query)
     (filter (\<lambda>j. column_name_of ((c # cols) ! j) \<notin> set ex \<and> row ! (index + j) \<noteq> None)
        [0..<length (c # cols)])
   = (if column_name_of c \<notin> set ex \<and> row ! index \<noteq> None
      then [field_score str unicode_lower (the (row ! index)) query] else [])
     @ map (\<lambda>j. field_score str unicode_lower (the (row ! (Suc index + j))) query)
         (filter (\<lambda>j. column_name_of (cols ! j) \<notin> set ex \<and> row ! (Suc index + j) \<noteq> None)
            [0..<length cols])"
  by (simp add: upt_0_Suc_shift filter_map o_def del: upt_Suc)

lemma best_score_loop_fold:
  "index + length cols \<le> length row \<Longrightarrow>
   best_score_loop str unicode_lower row query ex index cols best
   = Inr (fold max
       (map (\<lambda>j. field_score str unicode_lower (the (row ! (index + j))) query)
          (filter (\<lambda>j. column_name_of (cols ! j) \<notin> set ex \<and> row ! (index + j) \<noteq> None)
             [0..<length cols]))
       best)"
proof (induction cols arbitrary: index best)
  case Nil
  then show ?case by simp
next
  case (Cons c cols)
  then have lt: "index < length row" and rest: "Suc index + length cols \<le> length row"
    by simp_all
  note IH = Cons.IH [OF rest]
  show ?case
  proof (cases "column_name_of c \<notin> set ex \<and> row ! index \<noteq> None")
    case True
    then obtain v where v: "row ! index = Some v" by auto
    show ?thesis
      unfolding loop_scores_Cons using True v lt
      by (simp add: IH Let_def max.commute)
  next
    case False
    show ?thesis
      unfolding loop_scores_Cons using False lt
      by (auto simp: IH Let_def split: option.splits)
  qed
qed

lemma get_best_match_score_fold:
  "length columns_info \<le> length row \<Longrightarrow>
   get_best_match_score str unicode_lower columns_info row query ex
   = Inr (fold max (field_scores str unicode_lower columns_info row query ex) 0)"
  using best_score_loop_fold [of 0 columns_info row str unicode_lower query ex 0]
  by (simp add: get_best_match_score_def field_scores_def scored_positions_def)

lemma field_scores_nonneg: "\<forall>s \<in> set (field_scores str unicode_lower columns_info row query ex). 0
    \<le> s"
  by (auto simp: field_scores_def field_score_bounds)

lemma fold_max_Max: "fold max xs (b::rat) = Max (insert b (set xs))"
  using Max.set_eq_fold [of b xs] by simp





subsection \<open>Rendering\<close>

lemma mset_take_subset: "mset (take n xs) \<subseteq># mset xs"
  by (metis append_take_drop_id mset_append mset_subset_eq_add_left)

lemma index_py_first_index:
  "index_py xs x = (if x \<in> set xs then Inr (first_index xs x) else Inl ValueError)"
  by (induction xs) (auto simp: first_index_def)

lemma visible_name_in_headers:
  "k < length columns_info \<Longrightarrow>
   column_name_of (columns_info ! k) \<notin> set excluded_columns \<Longrightarrow>
   column_name_of (columns_info ! k) \<in> set (headers_of columns_info)"
  by (auto simp: headers_of_def)

lemma render_cells_Cons_positions:
  "map (\<lambda>k. f (col_index + k) ((value # rest) ! k))
     (filter (\<lambda>k. P (col_index + k)) [0..<length (value # rest)])
   = (if P col_index then [f col_index value] else [])
     @ map (\<lambda>k. f (Suc col_index + k) (rest ! k))
         (filter (\<lambda>k. P (Suc col_index + k)) [0..<length rest])"
  by (simp add: upt_0_Suc_shift filter_map o_def del: upt_Suc)

lemma render_cells_from:
  "col_index + length vals \<le> length columns_info \<Longrightarrow>
   render_cells str columns_info (headers_of columns_info) row col_index vals
   = Inr (map (\<lambda>k. SetItem row
                (first_index (headers_of columns_info)
                   (column_name_of (columns_info ! (col_index + k))))
                (str_cell str (vals ! k)))
           (filter (\<lambda>k. column_name_of (columns_info ! (col_index + k))
                          \<notin> set excluded_columns)
              [0..<length vals]))"
proof (induction vals arbitrary: col_index)
  case Nil
  then show ?case by simp
next
  case (Cons v vals)
  then have lt: "col_index < length columns_info"
    and rest: "Suc col_index + length vals \<le> length columns_info"
    by simp_all
  note IH = Cons.IH [OF rest]
  note split = render_cells_Cons_positions
    [of "\<lambda>j value. SetItem row
            (first_index (headers_of columns_info) (column_name_of (columns_info ! j)))
            (str_cell str value)"
        col_index v vals
        "\<lambda>j. column_name_of (columns_info ! j) \<notin> set excluded_columns"]
  show ?case
  proof (cases "column_name_of (columns_info ! col_index) \<notin> set excluded_columns")
    case True
    then have "index_py (headers_of columns_info) (column_name_of (columns_info ! col_index))
               = Inr (first_index (headers_of columns_info)
                        (column_name_of (columns_info ! col_index)))"
      using lt by (simp add: index_py_first_index visible_name_in_headers)
    then show ?thesis
      unfolding split using True lt by (simp add: IH Let_def)
  next
    case False
    then show ?thesis
      unfolding split using lt by (simp add: IH Let_def)
  qed
qed

lemma render_cells_visible:
  "length match_row = length columns_info \<Longrightarrow>
   render_cells str columns_info (headers_of columns_info) row 0 match_row
   = Inr (visible_cells str columns_info row match_row)"
  using render_cells_from [of 0 match_row columns_info str row]
  by (simp add: visible_cells_def)

lemma render_matches_visible:
  "\<forall>p \<in> set matches. length (fst p) = length columns_info \<Longrightarrow>
   render_matches str columns_info (headers_of columns_info) row matches
   = Inr (concat (map (\<lambda>(r, p). visible_cells str columns_info r (fst p))
                   (enumerate row matches)))"
proof (induction matches arbitrary: row)
  case Nil
  then show ?case by simp
next
  case (Cons p matches)
  obtain match_row score where p: "p = (match_row, score)"
    by (cases p)
  with Cons.prems have len: "length match_row = length columns_info"
    and rest: "\<forall>p \<in> set matches. length (fst p) = length columns_info"
    by simp_all
  show ?case
    by (simp add: p render_cells_visible [OF len] Cons.IH [OF rest])
qed
subsection \<open>The claims\<close>

text \<open>
  C1: for every row that has a value for each column of the schema and every query, the
  score the code computes is the greatest of the per-field scores, taken over exactly
  the positions whose column name is not excluded and whose value is not null; with no
  such position the score is 0.
\<close>

theorem get_best_match_score_is_max:
  assumes "length columns_info \<le> length row"
  shows "get_best_match_score str unicode_lower columns_info row query exclude_columns
         = Inr (if field_scores str unicode_lower columns_info row query exclude_columns = [] then 0
                else Max (set (field_scores str unicode_lower columns_info row query
                    exclude_columns)))"
proof (cases "field_scores str unicode_lower columns_info row query exclude_columns = []")
  case True
  then show ?thesis
    by (simp add: get_best_match_score_fold [OF assms])
next
  case False
  let ?S = "set (field_scores str unicode_lower columns_info row query exclude_columns)"
  have fin: "finite ?S" and ne: "?S \<noteq> {}"
    using False by simp_all
  have "0 \<le> Max ?S"
    using field_scores_nonneg [of str unicode_lower columns_info row query exclude_columns] fin ne
    by (meson Max_in)
  then have "Max (insert 0 ?S) = Max ?S"
    using fin ne by (simp add: max_def)
  then show ?thesis
    using False by (simp add: get_best_match_score_fold [OF assms] fold_max_Max)
qed

lemma example_field_scores:
  "field_scores str_text no_table example_columns [Some ''u2'', Some ''Dusk'', Some ''C'']
      example_query
     excluded_columns = [100, 0]"
  by code_simp

theorem get_best_match_score_is_max_witness:
  "length example_columns \<le> length [Some ''u2'', Some ''Dusk'', Some ''C'']
   \<and> scored_positions example_columns [Some ''u2'', Some ''Dusk'', Some ''C'']
        excluded_columns = [1, 2]
   \<and> get_best_match_score str_text no_table example_columns [Some ''u2'', Some ''Dusk'', Some ''C'']
        example_query excluded_columns = Inr 100
   \<and> get_best_match_score str_text no_table example_columns [Some ''u3'', None, None]
        example_query excluded_columns = Inr 0"
proof -
  have len: "length example_columns \<le> length [Some ''u2'', Some ''Dusk'', Some ''C'']"
    and len': "length example_columns \<le> length [Some ''u3'', None, None :: string option]"
    by (simp_all add: example_columns_def)
  have pos: "scored_positions example_columns [Some ''u2'', Some ''Dusk'', Some ''C'']
        excluded_columns = [1, 2]"
    by code_simp
  have none: "field_scores str_text no_table example_columns [Some ''u3'', None, None] example_query
     excluded_columns = []"
    by code_simp
  show ?thesis
    using get_best_match_score_is_max [OF len, of str_text no_table example_query excluded_columns]
      get_best_match_score_is_max [OF len', of str_text no_table example_query excluded_columns]
      len pos
    by (simp add: example_field_scores none)
qed

text \<open>
  C2: for every non-null value and every query, the per-field score is the ratio metric
  on the lower-case forms (\<^verbatim>\<open>str.lower\<close>) of the value's string form and of the
  query: with T the total length of the two lower-case strings and M the length of a
  longest common subsequence of them (some common subsequence has M characters and none
  has more), the score is 100 * (2 * M) / T whenever T is not 0.
\<close>

theorem field_score_is_lcs_ratio:
  "(0 < length (lower unicode_lower (str v)) + length (lower unicode_lower query) \<longrightarrow>
      field_score str unicode_lower v query
      = 100 * (2 * of_nat (lcs_length (lower unicode_lower (str v))
                             (lower unicode_lower query)))
        / of_nat (length (lower unicode_lower (str v)) + length (lower unicode_lower query)))
   \<and> (\<exists>zs. subseq zs (lower unicode_lower (str v)) \<and> subseq zs (lower unicode_lower query)
          \<and> length zs = lcs_length (lower unicode_lower (str v)) (lower unicode_lower query))
   \<and> (\<forall>zs. subseq zs (lower unicode_lower (str v)) \<and> subseq zs (lower unicode_lower query)
          \<longrightarrow> length zs
              \<le> lcs_length (lower unicode_lower (str v)) (lower unicode_lower query))"
  using lcs_length_attained [of "lower unicode_lower (str v)" "lower unicode_lower query"]
    lcs_length_longest [of _ "lower unicode_lower (str v)" "lower unicode_lower query"]
  by (simp add: field_score_def ratio_def Let_def)

lemma example_lower:
  "lower no_table (str_text ''Dark'') = code_points ''dark''"
  "lower no_table (code_points ''DUSK'') = code_points ''dusk''"
  by code_simp+

lemma example_lcs:
  "subseq (code_points ''dk'') (code_points ''dark'')
   \<and> subseq (code_points ''dk'') (code_points ''dusk'')"
  by code_simp

lemma example_field_score: "field_score str_text no_table ''Dark'' (code_points ''DUSK'') = 50"
  by code_simp

theorem field_score_is_lcs_ratio_witness:
  "lower no_table (str_text ''Dark'') = code_points ''dark''
   \<and> lower no_table (code_points ''DUSK'') = code_points ''dusk''
   \<and> field_score str_text no_table ''Dark'' (code_points ''DUSK'') = 50
   \<and> length (code_points ''dark'') + length (code_points ''dusk'') = 8
   \<and> subseq (code_points ''dk'') (code_points ''dark'')
   \<and> subseq (code_points ''dk'') (code_points ''dusk'')
   \<and> lcs_length (code_points ''dark'') (code_points ''dusk'') = 2"
proof -
  note t = field_score_is_lcs_ratio [of no_table str_text "''Dark''" "code_points ''DUSK''",
      unfolded example_lower]
  have T: "length (code_points ''dark'') + length (code_points ''dusk'') = 8"
    by (simp add: code_points_def)
  from t have "length (code_points ''dk'')
               \<le> lcs_length (code_points ''dark'') (code_points ''dusk'')"
    using example_lcs by blast
  moreover from t T
  have "50 = 100 * (2 * rat_of_nat (lcs_length (code_points ''dark'') (code_points ''dusk'')))
             / 8"
    by (simp add: example_field_score)
  then have "rat_of_nat (lcs_length (code_points ''dark'') (code_points ''dusk'')) = 2"
    by simp
  then have "lcs_length (code_points ''dark'') (code_points ''dusk'') = 2"
    using of_nat_eq_iff [where 'a = rat, of _ 2] by simp
  ultimately show ?thesis
    using T example_lcs example_field_score example_lower by simp
qed

text \<open>
  C3: for every collection of rows (each with a value for each column of the schema)
  and every query, the list the search returns is sorted by score, highest first, and
  for each score \<open>k\<close> the records of the result that have score \<open>k\<close> are, in this
  order, the first records with score \<open>k\<close> of the input: records of equal score keep
  the order in which they were fetched.
\<close>

theorem perform_fuzzy_search_sorted_stable:
  assumes "\<forall>row \<in> set all_rows. length columns_info \<le> length row"
  shows "\<exists>top_matches.
           perform_fuzzy_search str unicode_lower columns_info all_rows query = Inr top_matches
           \<and> sorted_wrt (\<lambda>a b. snd b \<le> snd a) top_matches
           \<and> (\<forall>k. prefix (map fst (filter (\<lambda>p. snd p = k) top_matches))
                 (filter (\<lambda>row. get_best_match_score str unicode_lower columns_info row query
                                  excluded_columns = Inr k) all_rows))"
proof -
  from score_rows_total [OF assms]
  obtain match_scores
    where ms: "score_rows str unicode_lower columns_info query excluded_columns all_rows = Inr
        match_scores"
    by blast
  define sorted_matches where "sorted_matches = sorted_py snd True match_scores"
  have res: "perform_fuzzy_search str unicode_lower columns_info all_rows query
             = Inr (take 10 sorted_matches)"
    using ms by (simp add: perform_fuzzy_search_Inr sorted_matches_def)
  have desc: "sorted_wrt (\<lambda>a b. snd b \<le> snd a) (take 10 sorted_matches)"
    unfolding sorted_matches_def by (intro sorted_wrt_take sorted_py_descending)
  have stable: "prefix (map fst (filter (\<lambda>p. snd p = k) (take 10 sorted_matches)))
                 (filter (\<lambda>row. get_best_match_score str unicode_lower columns_info row query
                                  excluded_columns = Inr k) all_rows)" for k
  proof -
    have "prefix (filter (\<lambda>p. snd p = k) (take 10 sorted_matches))
                 (filter (\<lambda>p. snd p = k) sorted_matches)"
      by (intro filter_mono_prefix take_is_prefix)
    then have "prefix (filter (\<lambda>p. snd p = k) (take 10 sorted_matches))
                      (filter (\<lambda>p. snd p = k) match_scores)"
      by (simp add: sorted_matches_def sorted_py_stable)
    then have "prefix (map fst (filter (\<lambda>p. snd p = k) (take 10 sorted_matches)))
                      (map fst (filter (\<lambda>p. snd p = k) match_scores))"
      by (rule map_mono_prefix)
    then show ?thesis
      by (simp only: scored_rows_filter [OF ms])
  qed
  from res desc stable show ?thesis by blast
qed

theorem perform_fuzzy_search_sorted_stable_witness:
  "\<exists>top_matches.
     perform_fuzzy_search str_text no_table example_columns example_rows example_query = Inr
         top_matches
     \<and> top_matches = [([Some ''u2'', Some ''Dusk'', Some ''C''], 100),
          ([Some ''u4'', Some ''DUSK'', Some ''D''], 100),
          ([Some ''u1'', Some ''Dawn'', None], 25),
          ([Some ''u3'', None, None], 0)]
     \<and> sorted_wrt (\<lambda>a b. snd b \<le> snd a) top_matches
     \<and> (\<forall>k. prefix (map fst (filter (\<lambda>p. snd p = k) top_matches))
           (filter (\<lambda>row. get_best_match_score str_text no_table example_columns row example_query
                            excluded_columns = Inr k) example_rows))"
  using perform_fuzzy_search_sorted_stable [OF example_rows_fit, of str_text no_table example_query]
  by (simp add: example_search)

text \<open>
  C4: for every query and every collection of rows (each with a value for each column
  of the schema), the search returns min(10, number of rows) entries
  (\<^verbatim>\<open>sorted_matches[:10]\<close>: the source's top-k is the constant 10); when there are at
  most 10 rows, the records returned are all the rows.
\<close>

theorem perform_fuzzy_search_length:
  assumes "\<forall>row \<in> set all_rows. length columns_info \<le> length row"
  shows "\<exists>top_matches.
           perform_fuzzy_search str unicode_lower columns_info all_rows query = Inr top_matches
           \<and> length top_matches = min 10 (length all_rows)
           \<and> (length all_rows \<le> 10 \<longrightarrow> mset (map fst top_matches) = mset all_rows)"
proof -
  from score_rows_total [OF assms]
  obtain match_scores
    where ms: "score_rows str unicode_lower columns_info query excluded_columns all_rows = Inr
        match_scores"
    by blast
  have rows: "map fst match_scores = all_rows"
    using score_rows_Inr [OF ms] by simp
  then have len: "length match_scores = length all_rows"
    by (metis length_map)
  have res: "perform_fuzzy_search str unicode_lower columns_info all_rows query
             = Inr (take 10 (sorted_py snd True match_scores))"
    using ms by (simp add: perform_fuzzy_search_Inr)
  have l: "length (take 10 (sorted_py snd True match_scores)) = min 10 (length all_rows)"
    by (simp add: length_sorted_py len)
  have all: "mset (map fst (take 10 (sorted_py snd True match_scores))) = mset all_rows"
    if "length all_rows \<le> 10"
  proof -
    have "take 10 (sorted_py snd True match_scores) = sorted_py snd True match_scores"
      using that by (simp add: length_sorted_py len)
    then show ?thesis
      using rows by (metis mset_map mset_sorted_py)
  qed
  from res l all show ?thesis by blast
qed

theorem perform_fuzzy_search_length_witness:
  "\<exists>top_matches.
     perform_fuzzy_search str_text no_table example_columns example_rows example_query = Inr
         top_matches
     \<and> length top_matches = 4 \<and> mset (map fst top_matches) = mset example_rows"
  using perform_fuzzy_search_length [OF example_rows_fit, of str_text no_table example_query]
  by (auto simp: example_rows_def)

text \<open>
  C5, as amended: for every collection of rows, the search handler
  \<^verbatim>\<open>perform_search\<close> given the empty query sets the result table to 0 rows and does
  nothing else (it does not call \<^verbatim>\<open>perform_fuzzy_search\<close>); the function
  \<^verbatim>\<open>perform_fuzzy_search\<close> itself treats the empty query as any other and returns
  min(10, number of rows) entries for rows that fit the schema.
\<close>

theorem empty_query_shows_no_rows:
  "perform_search str unicode_lower columns_info all_rows [] = Inr [SetRowCount 0]
   \<and> ((\<forall>row \<in> set all_rows. length columns_info \<le> length row) \<longrightarrow>
        (\<exists>top_matches.
           perform_fuzzy_search str unicode_lower columns_info all_rows [] = Inr top_matches
           \<and> length top_matches = min 10 (length all_rows)))"
proof -
  have "\<exists>top_matches.
           perform_fuzzy_search str unicode_lower columns_info all_rows [] = Inr top_matches
           \<and> length top_matches = min 10 (length all_rows)"
    if fit: "\<forall>row \<in> set all_rows. length columns_info \<le> length row"
  proof -
    from score_rows_total [OF fit]
    obtain match_scores
      where ms: "score_rows str unicode_lower columns_info [] excluded_columns all_rows = Inr
          match_scores"
      by blast
    have "length match_scores = length all_rows"
      using score_rows_Inr [OF ms] by (metis length_map)
    then show ?thesis
      using ms by (simp add: perform_fuzzy_search_Inr length_sorted_py)
  qed
  then show ?thesis
    by (simp add: perform_search_def)
qed

lemma example_empty_query_search:
  "perform_fuzzy_search str_text no_table example_columns example_rows [] =
     Inr [([Some ''u1'', Some ''Dawn'', None], 0),
          ([Some ''u2'', Some ''Dusk'', Some ''C''], 0),
          ([Some ''u3'', None, None], 0),
          ([Some ''u4'', Some ''DUSK'', Some ''D''], 0)]"
  by code_simp

theorem empty_query_shows_no_rows_witness:
  "perform_search str_text no_table example_columns example_rows [] = Inr [SetRowCount 0]
   \<and> (\<exists>top_matches.
         perform_fuzzy_search str_text no_table example_columns example_rows [] = Inr top_matches
         \<and> length top_matches = 4)"
proof -
  note t = empty_query_shows_no_rows [of str_text no_table example_columns example_rows]
  have len: "min 10 (length example_rows) = 4"
    by (simp add: example_rows_def)
  from t example_rows_fit
  have "\<exists>top_matches.
          perform_fuzzy_search str_text no_table example_columns example_rows [] = Inr top_matches
          \<and> length top_matches = min 10 (length example_rows)"
    by blast
  with t show ?thesis
    by (simp only: len)
qed

text \<open>
  C5 as stated fails for \<^verbatim>\<open>perform_fuzzy_search\<close>: on the four example rows the empty
  query yields four entries of score 0, in the order of the input.
\<close>

theorem empty_query_still_ranked:
  "example_rows \<noteq> []
   \<and> perform_fuzzy_search str_text no_table example_columns example_rows []
     = Inr [([Some ''u1'', Some ''Dawn'', None], 0),
            ([Some ''u2'', Some ''Dusk'', Some ''C''], 0),
            ([Some ''u3'', None, None], 0),
            ([Some ''u4'', Some ''DUSK'', Some ''D''], 0)]
   \<and> perform_fuzzy_search str_text no_table example_columns example_rows [] \<noteq> Inr []"
  by (simp add: example_empty_query_search) (simp add: example_rows_def)

text \<open>
  C6: for every row, query and set of excluded names, replacing the value at a position
  whose column name is excluded (by any value, null or not) leaves the row's score as
  it was, error or number alike.
\<close>

theorem excluded_field_never_scored:
  assumes "i < length columns_info"
    and "column_name_of (columns_info ! i) \<in> set exclude_columns"
  shows "get_best_match_score str unicode_lower columns_info (row[i := v]) query exclude_columns
         = get_best_match_score str unicode_lower columns_info row query exclude_columns"
  unfolding get_best_match_score_def
  by (rule best_score_loop_excluded_update) (use assms in simp)

lemma example_uuid_excluded:
  "0 < length example_columns \<and> column_name_of (example_columns ! 0) \<in> set excluded_columns"
  by (simp add: example_columns_def text_column_def column_name_of_def excluded_columns_def)

lemma score_example_dawn:
  "get_best_match_score str_text no_table example_columns [Some ''u1'', Some ''Dawn'', None]
      example_query
     excluded_columns = Inr 25"
  by code_simp

theorem excluded_field_never_scored_witness:
  "0 < length example_columns
   \<and> column_name_of (example_columns ! 0) \<in> set excluded_columns
   \<and> get_best_match_score str_text no_table example_columns
        ([Some ''u1'', Some ''Dawn'', None][0 := Some ''dusk'']) example_query excluded_columns
      = Inr 25"
  using excluded_field_never_scored [of 0 example_columns excluded_columns str_text no_table
      "[Some ''u1'', Some ''Dawn'', None]" "Some ''dusk''" example_query]
    example_uuid_excluded score_example_dawn
  by simp






text \<open>
  C8: for every row and every query, the score computed for the row is at least 0 and at
  most 100. (The computation yields a score unless the row is shorter than the schema,
  where \<^verbatim>\<open>row[index]\<close> raises IndexError.)
\<close>

theorem get_best_match_score_range:
  "(\<exists>s. get_best_match_score str unicode_lower columns_info row query exclude_columns = Inr s
        \<and> 0 \<le> s \<and> s \<le> 100)
   \<or> (get_best_match_score str unicode_lower columns_info row query exclude_columns = Inl IndexError
        \<and> length row < length columns_info)"
proof (cases "get_best_match_score str unicode_lower columns_info row query exclude_columns")
  case (Inl e)
  then show ?thesis
    using best_score_loop_error [of str unicode_lower row query exclude_columns 0 columns_info 0 e]
    by (simp add: get_best_match_score_def)
next
  case (Inr s)
  then show ?thesis
    using best_score_loop_bounds [of str unicode_lower row query exclude_columns 0 columns_info 0 s]
    by (simp add: get_best_match_score_def)
qed

text \<open>
  C9: for every query and every collection of rows (each with a value for each column of
  the schema), each entry of the list \<^verbatim>\<open>perform_fuzzy_search\<close> returns pairs a row of the
  input, whole and unchanged (the values of its excluded columns included), with that
  row's score. The excluded columns are left out only when \<^verbatim>\<open>perform_search\<close> fills the
  table, which it does for a query that is not empty and rows exactly as long as the
  schema: per entry it sets one cell for each column that is not excluded, and no other.
\<close>

theorem engine_keeps_rows_table_hides_excluded:
  assumes fit: "\<forall>row \<in> set all_rows. length columns_info \<le> length row"
  shows "\<exists>top_matches.
           perform_fuzzy_search str unicode_lower columns_info all_rows query = Inr top_matches
           \<and> mset (map fst top_matches) \<subseteq># mset all_rows
           \<and> (\<forall>p \<in> set top_matches.
                 get_best_match_score str unicode_lower columns_info (fst p) query
                   excluded_columns
                 = Inr (snd p))
           \<and> (query \<noteq> [] \<and> (\<forall>row \<in> set all_rows. length row = length columns_info) \<longrightarrow>
                perform_search str unicode_lower columns_info all_rows query
                = Inr (SetRowCount (length top_matches)
                       # concat (map (\<lambda>(row, p). visible_cells str columns_info row (fst p))
                                  (enumerate 0 top_matches))))"
proof -
  from score_rows_total [OF fit]
  obtain match_scores
    where ms: "score_rows str unicode_lower columns_info query excluded_columns all_rows
               = Inr match_scores"
    by blast
  from score_rows_Inr [OF ms]
  have rows: "map fst match_scores = all_rows"
    and sc: "\<forall>p \<in> set match_scores.
               get_best_match_score str unicode_lower columns_info (fst p) query
                 excluded_columns
               = Inr (snd p)"
    by simp_all
  define top_matches where "top_matches = take 10 (sorted_py snd True match_scores)"
  have res: "perform_fuzzy_search str unicode_lower columns_info all_rows query
             = Inr top_matches"
    using ms by (simp add: perform_fuzzy_search_Inr top_matches_def)
  have sub: "set top_matches \<subseteq> set match_scores"
    unfolding top_matches_def using set_take_subset [of 10 "sorted_py snd True match_scores"]
    by (simp add: set_sorted_py)
  have "mset (map fst top_matches) \<subseteq># mset (map fst (sorted_py snd True match_scores))"
    unfolding top_matches_def take_map [symmetric] by (rule mset_take_subset)
  also have "mset (map fst (sorted_py snd True match_scores)) = mset all_rows"
    using rows by (metis mset_map mset_sorted_py)
  finally have unmodified: "mset (map fst top_matches) \<subseteq># mset all_rows" .
  have scores: "\<forall>p \<in> set top_matches.
                  get_best_match_score str unicode_lower columns_info (fst p) query
                    excluded_columns
                  = Inr (snd p)"
    using sc sub by blast
  have table: "perform_search str unicode_lower columns_info all_rows query
        = Inr (SetRowCount (length top_matches)
               # concat (map (\<lambda>(row, p). visible_cells str columns_info row (fst p))
                          (enumerate 0 top_matches)))"
    if query: "query \<noteq> []"
      and exact: "\<forall>row \<in> set all_rows. length row = length columns_info"
  proof -
    have "\<forall>p \<in> set top_matches. length (fst p) = length columns_info"
    proof
      fix p assume "p \<in> set top_matches"
      with sub have "fst p \<in> set (map fst match_scores)" by auto
      with rows exact show "length (fst p) = length columns_info" by simp
    qed
    from render_matches_visible [OF this, of str 0] show ?thesis
      using query res by (simp add: perform_search_def)
  qed
  from res unmodified scores table show ?thesis by blast
qed

lemma example_rows_exact: "\<forall>row \<in> set example_rows. length row = length example_columns"
  by (simp add: example_rows_def example_columns_def)

lemma example_table:
  "concat (map (\<lambda>(row, p). visible_cells str_text example_columns row (fst p))
     (enumerate 0
        [([Some ''u2'', Some ''Dusk'', Some ''C''], 100 :: rat),
         ([Some ''u4'', Some ''DUSK'', Some ''D''], 100),
         ([Some ''u1'', Some ''Dawn'', None], 25),
         ([Some ''u3'', None, None], 0)]))
   = [SetItem 0 0 (code_points ''Dusk''), SetItem 0 1 (code_points ''C''),
      SetItem 1 0 (code_points ''DUSK''), SetItem 1 1 (code_points ''D''),
      SetItem 2 0 (code_points ''Dawn''), SetItem 2 1 (code_points ''None''),
      SetItem 3 0 (code_points ''None''), SetItem 3 1 (code_points ''None'')]"
  by code_simp

theorem engine_keeps_rows_table_hides_excluded_witness:
  "perform_fuzzy_search str_text no_table example_columns example_rows example_query
   = Inr [([Some ''u2'', Some ''Dusk'', Some ''C''], 100),
          ([Some ''u4'', Some ''DUSK'', Some ''D''], 100),
          ([Some ''u1'', Some ''Dawn'', None], 25),
          ([Some ''u3'', None, None], 0)]
   \<and> perform_search str_text no_table example_columns example_rows example_query
     = Inr [SetRowCount 4,
            SetItem 0 0 (code_points ''Dusk''), SetItem 0 1 (code_points ''C''),
            SetItem 1 0 (code_points ''DUSK''), SetItem 1 1 (code_points ''D''),
            SetItem 2 0 (code_points ''Dawn''), SetItem 2 1 (code_points ''None''),
            SetItem 3 0 (code_points ''None''), SetItem 3 1 (code_points ''None'')]"
proof -
  have q: "example_query \<noteq> []"
    by (simp add: example_query_def code_points_def)
  from engine_keeps_rows_table_hides_excluded
    [OF example_rows_fit, of str_text no_table example_query] q example_rows_exact
  obtain top_matches
    where r1: "perform_fuzzy_search str_text no_table example_columns example_rows
                 example_query = Inr top_matches"
      and r2: "perform_search str_text no_table example_columns example_rows example_query
           = Inr (SetRowCount (length top_matches)
                  # concat (map (\<lambda>(row, p). visible_cells str_text example_columns row (fst p))
                             (enumerate 0 top_matches)))"
    by blast
  from r1 have top: "top_matches
      = [([Some ''u2'', Some ''Dusk'', Some ''C''], 100),
         ([Some ''u4'', Some ''DUSK'', Some ''D''], 100),
         ([Some ''u1'', Some ''Dawn'', None], 25),
         ([Some ''u3'', None, None], 0)]"
    by (simp add: example_search)
  from r2 have "perform_search str_text no_table example_columns example_rows example_query
     = Inr (SetRowCount (length top_matches)
            # [SetItem 0 0 (code_points ''Dusk''), SetItem 0 1 (code_points ''C''),
               SetItem 1 0 (code_points ''DUSK''), SetItem 1 1 (code_points ''D''),
               SetItem 2 0 (code_points ''Dawn''), SetItem 2 1 (code_points ''None''),
               SetItem 3 0 (code_points ''None''), SetItem 3 1 (code_points ''None'')])"
    by (simp only: top example_table)
  then show ?thesis
    by (simp add: example_search top)
qed





end
